theory Spec2Isabelle
  imports Complex_Main "HOL-Library.AList"
begin

section \<open>Data model of qPCR\_Analysis.py\<close>

text \<open>
  The program keeps all of its intermediate results in Python dictionaries. A Python
  dictionary iterates in insertion order and holds every key once, so a dictionary is
  modelled as an association list in insertion order:
  \<^item> \<open>k in d\<close> is \<open>map_of d k \<noteq> None\<close>, and \<open>d[k]\<close> after such a test is the value found;
  \<^item> \<open>d[k] = v\<close> is \<open>AList.update k v d\<close>: an existing key keeps its position and gets the
    new value, a new key is appended at the end;
  \<^item> \<open>d.items()\<close> and \<open>d.keys()\<close> are the list itself and \<open>map fst d\<close>.
  The invariant of a dictionary (no key twice) is \<open>distinct (map fst d)\<close>; it is stated
  as a hypothesis wherever a function receives a dictionary from outside.
\<close>

subsection \<open>Python floats\<close>

text \<open>
  A Ct value is a Python float, an IEEE double: a finite number, one of the two
  infinities, or nan. A finite float is modelled by the real number it stands for. The
  operations follow the program wherever a result leaves the finite range or involves a
  special value:
  \<^item> a sum or difference of finite floats whose exact value has magnitude \<open>dbl_overflow\<close>
    or more is an infinity (\<open>1e308 - (-1e308)\<close> is \<open>inf\<close>); nothing is raised;
  \<^item> \<open>inf - inf\<close> is \<open>nan\<close>, and \<open>nan\<close> spreads through every operation;
  \<^item> \<open>2 ** x\<close> raises OverflowError for a finite \<open>x\<close> from 1024 on, is \<open>0.0\<close> for a finite
    \<open>x\<close> up to -1075, and is \<open>inf\<close>, \<open>0.0\<close>, \<open>nan\<close> for \<open>inf\<close>, \<open>-inf\<close>, \<open>nan\<close>.
  Inside the finite range a result is the exact real value: its rounding to the nearest
  double is the one thing left out.
\<close>

datatype pyfloat = Finite real | PosInf | NegInf | NaN

datatype py_error = KeyError | OverflowError

text \<open>
  The least magnitude that rounds to an infinity: half a unit in the last place above
  the largest double.
\<close>

definition dbl_overflow :: real where
  "dbl_overflow = 2 ^ 1024 - 2 ^ 970"

definition py_range :: "real \<Rightarrow> pyfloat" where
  "py_range x =
     (if dbl_overflow \<le> x then PosInf
      else if x \<le> - dbl_overflow then NegInf
      else Finite x)"

fun py_neg :: "pyfloat \<Rightarrow> pyfloat" where
  "py_neg (Finite x) = Finite (- x)"
| "py_neg PosInf = NegInf"
| "py_neg NegInf = PosInf"
| "py_neg NaN = NaN"

fun py_add :: "pyfloat \<Rightarrow> pyfloat \<Rightarrow> pyfloat" where
  "py_add (Finite a) (Finite b) = py_range (a + b)"
| "py_add NaN y = NaN"
| "py_add x NaN = NaN"
| "py_add PosInf NegInf = NaN"
| "py_add NegInf PosInf = NaN"
| "py_add PosInf y = PosInf"
| "py_add NegInf y = NegInf"
| "py_add x PosInf = PosInf"
| "py_add x NegInf = NegInf"

text \<open>\<open>a - b\<close> on floats has the value of \<open>a + (-b)\<close>, also at the special values.\<close>

definition py_sub :: "pyfloat \<Rightarrow> pyfloat \<Rightarrow> pyfloat" where
  "py_sub a b = py_add a (py_neg b)"

text \<open>
  \<open>x / n\<close> for a float \<open>x\<close> and the length \<open>n\<close> of a list. The program divides only after
  it has found \<open>n\<close> different from 0, so ZeroDivisionError has no branch here; dividing
  by a positive whole number does not leave the finite range.
\<close>

fun py_truediv :: "pyfloat \<Rightarrow> nat \<Rightarrow> pyfloat" where
  "py_truediv (Finite a) n = Finite (a / real n)"
| "py_truediv PosInf n = PosInf"
| "py_truediv NegInf n = NegInf"
| "py_truediv NaN n = NaN"

text \<open>\<open>2 ** x\<close> for a float \<open>x\<close>.\<close>

fun py_pow2 :: "pyfloat \<Rightarrow> py_error + pyfloat" where
  "py_pow2 (Finite x) =
     (if 1024 \<le> x then Inl OverflowError
      else if x \<le> - 1075 then Inr (Finite 0)
      else Inr (Finite (2 powr x)))"
| "py_pow2 PosInf = Inr PosInf"
| "py_pow2 NegInf = Inr (Finite 0)"
| "py_pow2 NaN = Inr NaN"

subsection \<open>Readings and maps\<close>

record reading =
  condition :: string
  gene :: string
  sample_id :: string
  ct :: pyfloat

type_synonym group_key = "string \<times> string"
type_synonym ('k, 'v) dict = "('k \<times> 'v) list"
type_synonym sample_map = "(string, pyfloat) dict"
type_synonym grouped_map = "(group_key, sample_map) dict"
type_synonym hk_index = "(string \<times> string, pyfloat) dict"
type_synonym delta_ct_set = "(group_key, pyfloat list) dict"
type_synonym value_map = "(group_key, pyfloat) dict"

text \<open>The invariant of a grouped map as a Python value: a dictionary of dictionaries.\<close>

definition grouped_ok :: "grouped_map \<Rightarrow> bool" where
  "grouped_ok grouped \<longleftrightarrow>
     distinct (map fst grouped) \<and> list_all (\<lambda>(key, samples). distinct (map fst samples)) grouped"

section \<open>group\_ct\_values\<close>

text \<open>
  One turn of the loop over the rows: the inner dictionary is created on first use
  (\<open>grouped[key] = {}\<close>), then \<open>grouped[key][sample] = ct\<close> changes that inner dictionary
  in place, which \<open>AList.map_entry\<close> does for the entry of \<open>key\<close>.
\<close>

definition group_row :: "grouped_map \<Rightarrow> reading \<Rightarrow> grouped_map" where
  "group_row grouped row =
     (let cond = condition row;
          g = gene row;
          sample = sample_id row;
          c = ct row;
          key = (cond, g);
          grouped1 = (if map_of grouped key = None then AList.update key [] grouped else grouped)
      in AList.map_entry key (AList.update sample c) grouped1)"

fun group_loop :: "reading list \<Rightarrow> grouped_map \<Rightarrow> grouped_map" where
  "group_loop [] grouped = grouped"
| "group_loop (row # rest) grouped = group_loop rest (group_row grouped row)"

definition group_ct_values :: "reading list \<Rightarrow> grouped_map" where
  "group_ct_values data = group_loop data []"

section \<open>compute\_delta\_ct\<close>

text \<open>First loop: the housekeeping Ct per (condition, sample).\<close>

fun housekeeping_samples :: "string \<Rightarrow> sample_map \<Rightarrow> hk_index \<Rightarrow> hk_index" where
  "housekeeping_samples cond [] housekeeping = housekeeping"
| "housekeeping_samples cond ((sample, c) # rest) housekeeping =
     housekeeping_samples cond rest (AList.update (cond, sample) c housekeeping)"

fun housekeeping_loop :: "string \<Rightarrow> grouped_map \<Rightarrow> hk_index \<Rightarrow> hk_index" where
  "housekeeping_loop housekeeping_gene [] housekeeping = housekeeping"
| "housekeeping_loop housekeeping_gene (((cond, g), samples) # rest) housekeeping =
     (if g = housekeeping_gene
      then housekeeping_loop housekeeping_gene rest (housekeeping_samples cond samples housekeeping)
      else housekeeping_loop housekeeping_gene rest housekeeping)"

text \<open>
  Second loop. The inner loop appends to the list \<open>delta_ct[key]\<close>, which starts empty;
  a sample without a housekeeping Ct is passed over by \<open>continue\<close>.
\<close>

fun delta_samples :: "hk_index \<Rightarrow> string \<Rightarrow> sample_map \<Rightarrow> pyfloat list \<Rightarrow> pyfloat list" where
  "delta_samples housekeeping cond [] dcts = dcts"
| "delta_samples housekeeping cond ((sample, c) # rest) dcts =
     (case map_of housekeeping (cond, sample) of
        None \<Rightarrow> delta_samples housekeeping cond rest dcts
      | Some hk_ct \<Rightarrow> delta_samples housekeeping cond rest (dcts @ [py_sub c hk_ct]))"

fun delta_loop :: "string \<Rightarrow> hk_index \<Rightarrow> grouped_map \<Rightarrow> delta_ct_set \<Rightarrow> delta_ct_set" where
  "delta_loop housekeeping_gene housekeeping [] delta_ct = delta_ct"
| "delta_loop housekeeping_gene housekeeping (((cond, g), samples) # rest) delta_ct =
     (if g = housekeeping_gene
      then delta_loop housekeeping_gene housekeeping rest delta_ct
      else delta_loop housekeeping_gene housekeeping rest
             (AList.update (cond, g) (delta_samples housekeeping cond samples []) delta_ct))"

definition compute_delta_ct :: "grouped_map \<Rightarrow> string \<Rightarrow> delta_ct_set" where
  "compute_delta_ct grouped housekeeping_gene =
     (let housekeeping = housekeeping_loop housekeeping_gene grouped []
      in delta_loop housekeeping_gene housekeeping grouped [])"

section \<open>average\_delta\_ct\<close>

text \<open>Python's \<open>sum\<close> adds from the left, starting at 0.\<close>

definition py_sum :: "pyfloat list \<Rightarrow> pyfloat" where
  "py_sum vals = foldl py_add (Finite 0) vals"

fun average_loop :: "delta_ct_set \<Rightarrow> value_map \<Rightarrow> value_map" where
  "average_loop [] mean_delta_ct = mean_delta_ct"
| "average_loop ((key, vals) # rest) mean_delta_ct =
     (if length vals = 0
      then average_loop rest mean_delta_ct
      else average_loop rest (AList.update key (py_truediv (py_sum vals) (length vals)) mean_delta_ct))"

definition average_delta_ct :: "delta_ct_set \<Rightarrow> value_map" where
  "average_delta_ct delta_ct_dict = average_loop delta_ct_dict []"

section \<open>compute\_ddct\<close>

text \<open>
  \<open>genes\<close> is a Python set; the order in which the loop visits it is not fixed by the
  language. \<open>ddct_genes\<close> takes the order as the list it runs over, and \<open>compute_ddct\<close>
  visits each gene of the keys once, in an order taken from the keys. Lemma
  \<open>ddct_genes_order\<close> below shows that the order changes no entry of the result.

  \<open>mean_delta_ct[(cond, g)]\<close> in the inner loop is a subscript without a test before it:
  a missing key would raise KeyError, which is the \<open>Inl\<close> branch. The subtraction of two
  floats raises nothing.
\<close>

fun ddct_conditions ::
  "string \<Rightarrow> pyfloat \<Rightarrow> value_map \<Rightarrow> group_key list \<Rightarrow> value_map \<Rightarrow> py_error + value_map" where
  "ddct_conditions gene_name control_dct mean_delta_ct [] ddct = Inr ddct"
| "ddct_conditions gene_name control_dct mean_delta_ct ((cond, g) # rest) ddct =
     (if g \<noteq> gene_name
      then ddct_conditions gene_name control_dct mean_delta_ct rest ddct
      else (case map_of mean_delta_ct (cond, g) of
              None \<Rightarrow> Inl KeyError
            | Some dct \<Rightarrow>
                ddct_conditions gene_name control_dct mean_delta_ct rest
                  (AList.update (cond, g) (py_sub dct control_dct) ddct)))"

fun ddct_genes ::
  "string \<Rightarrow> value_map \<Rightarrow> string list \<Rightarrow> value_map \<Rightarrow> py_error + value_map" where
  "ddct_genes control_condition mean_delta_ct [] ddct = Inr ddct"
| "ddct_genes control_condition mean_delta_ct (gene_name # rest) ddct =
     (case map_of mean_delta_ct (control_condition, gene_name) of
        None \<Rightarrow> ddct_genes control_condition mean_delta_ct rest ddct
      | Some control_dct \<Rightarrow>
          (case ddct_conditions gene_name control_dct mean_delta_ct (map fst mean_delta_ct) ddct of
             Inl e \<Rightarrow> Inl e
           | Inr ddct1 \<Rightarrow> ddct_genes control_condition mean_delta_ct rest ddct1))"

definition genes_of :: "value_map \<Rightarrow> string list" where
  "genes_of mean_delta_ct = remdups (map (\<lambda>(cond, g). g) (map fst mean_delta_ct))"

definition compute_ddct :: "value_map \<Rightarrow> string \<Rightarrow> py_error + value_map" where
  "compute_ddct mean_delta_ct control_condition =
     ddct_genes control_condition mean_delta_ct (genes_of mean_delta_ct) []"

section \<open>compute\_fold\_change\<close>

text \<open>
  \<open>2 ** (-value)\<close> can raise OverflowError, which ends the loop and the function: no map
  is returned then.
\<close>

fun fold_change_loop :: "value_map \<Rightarrow> value_map \<Rightarrow> py_error + value_map" where
  "fold_change_loop [] fold_change = Inr fold_change"
| "fold_change_loop ((key, v) # rest) fold_change =
     (case py_pow2 (py_neg v) of
        Inl e \<Rightarrow> Inl e
      | Inr p \<Rightarrow> fold_change_loop rest (AList.update key p fold_change))"

definition compute_fold_change :: "value_map \<Rightarrow> py_error + value_map" where
  "compute_fold_change ddct_dict = fold_change_loop ddct_dict []"

section \<open>The pipeline of main\<close>

text \<open>
  The five calls of \<open>main\<close> between reading the input table and writing the results; the
  three maps handed to \<open>write_results_to_csv\<close> are the result.
\<close>

definition pipeline ::
  "reading list \<Rightarrow> string \<Rightarrow> string \<Rightarrow> py_error + (value_map \<times> value_map \<times> value_map)" where
  "pipeline data hk_gene control_cond =
     (let grouped = group_ct_values data;
          delta_ct = compute_delta_ct grouped hk_gene;
          mean_delta_ct = average_delta_ct delta_ct
      in case compute_ddct mean_delta_ct control_cond of
           Inl e \<Rightarrow> Inl e
         | Inr ddct \<Rightarrow>
             (case compute_fold_change ddct of
                Inl e \<Rightarrow> Inl e
              | Inr fold_change \<Rightarrow> Inr (mean_delta_ct, ddct, fold_change)))"

definition scenario :: "reading list" where
  "scenario =
     [\<lparr>condition = ''control'', gene = ''GAPDH'', sample_id = ''s1'', ct = Finite 20\<rparr>,
      \<lparr>condition = ''control'', gene = ''Bax'', sample_id = ''s1'', ct = Finite 25\<rparr>,
      \<lparr>condition = ''treated'', gene = ''GAPDH'', sample_id = ''s1'', ct = Finite 20.5\<rparr>,
      \<lparr>condition = ''treated'', gene = ''Bax'', sample_id = ''s1'', ct = Finite 24\<rparr>]"

section \<open>Reading the results\<close>

text \<open>
  The notions the properties below are stated with. \<open>sample_ct\<close> reads a grouped map at
  a key and a sample. \<open>last_ct\<close> is the Ct of the last reading of a table with a given
  condition, gene and sample.
\<close>

definition sample_ct :: "grouped_map \<Rightarrow> string \<Rightarrow> string \<Rightarrow> string \<Rightarrow> pyfloat option" where
  "sample_ct grouped c g s =
     (case map_of grouped (c, g) of None \<Rightarrow> None | Some samples \<Rightarrow> map_of samples s)"

definition last_ct :: "reading list \<Rightarrow> string \<Rightarrow> string \<Rightarrow> string \<Rightarrow> pyfloat option" where
  "last_ct data c g s =
     (case filter (\<lambda>r. condition r = c \<and> gene r = g \<and> sample_id r = s) data of
        [] \<Rightarrow> None
      | r # rs \<Rightarrow> Some (ct (last (r # rs))))"

text \<open>
  The housekeeping Ct of a sample under a condition: the entry of the sample in the sample
  map of (condition, housekeeping gene). \<open>delta_of_sample\<close> is what one sample of a key
  adds to the \<open>\<Delta>Ct\<close> sequence of that key: its Ct minus the housekeeping Ct, or nothing.
\<close>

definition housekeeping_ct :: "grouped_map \<Rightarrow> string \<Rightarrow> string \<Rightarrow> string \<Rightarrow> pyfloat option" where
  "housekeeping_ct grouped housekeeping_gene cond sample =
     (case map_of grouped (cond, housekeeping_gene) of
        None \<Rightarrow> None
      | Some samples \<Rightarrow> map_of samples sample)"

definition delta_of_sample ::
  "grouped_map \<Rightarrow> string \<Rightarrow> string \<Rightarrow> string \<times> pyfloat \<Rightarrow> pyfloat list" where
  "delta_of_sample grouped housekeeping_gene cond p =
     (case housekeeping_ct grouped housekeeping_gene cond (fst p) of
        None \<Rightarrow> []
      | Some hk_ct \<Rightarrow> [py_sub (snd p) hk_ct])"

text \<open>
  The \<open>\<Delta>\<Delta>Ct\<close> of a key: defined when both the key and the control condition of its gene
  have a mean.
\<close>

definition ddct_entry :: "value_map \<Rightarrow> string \<Rightarrow> group_key \<Rightarrow> pyfloat option" where
  "ddct_entry mean_delta_ct control_condition k =
     (case map_of mean_delta_ct (control_condition, snd k) of
        None \<Rightarrow> None
      | Some control_dct \<Rightarrow>
          (case map_of mean_delta_ct k of
             None \<Rightarrow> None
           | Some dct \<Rightarrow> Some (py_sub dct control_dct)))"

text \<open>
  What \<open>compute_fold_change\<close> does with one value \<open>v\<close>. \<open>pow_overflows v\<close> says that
  \<open>2 ** (-v)\<close> raises OverflowError: \<open>v\<close> is finite and at most -1024. \<open>fold_value v\<close> is the
  float \<open>2 ** (-v)\<close> otherwise. \<open>pow_in_range v\<close> says that \<open>v\<close> is finite and strictly
  between -1024 and 1075, where \<open>2 ** (-v)\<close> is the power and neither raises nor is 0.0.
  \<open>is_positive\<close> is \<open>0 < x\<close> on floats.
\<close>

fun pow_overflows :: "pyfloat \<Rightarrow> bool" where
  "pow_overflows (Finite x) \<longleftrightarrow> x \<le> - 1024"
| "pow_overflows PosInf \<longleftrightarrow> False"
| "pow_overflows NegInf \<longleftrightarrow> False"
| "pow_overflows NaN \<longleftrightarrow> False"

fun fold_value :: "pyfloat \<Rightarrow> pyfloat" where
  "fold_value (Finite x) = (if 1075 \<le> x then Finite 0 else Finite (2 powr (- x)))"
| "fold_value PosInf = Finite 0"
| "fold_value NegInf = PosInf"
| "fold_value NaN = NaN"

fun pow_in_range :: "pyfloat \<Rightarrow> bool" where
  "pow_in_range (Finite x) \<longleftrightarrow> - 1024 < x \<and> x < 1075"
| "pow_in_range PosInf \<longleftrightarrow> False"
| "pow_in_range NegInf \<longleftrightarrow> False"
| "pow_in_range NaN \<longleftrightarrow> False"

fun is_positive :: "pyfloat \<Rightarrow> bool" where
  "is_positive (Finite x) \<longleftrightarrow> 0 < x"
| "is_positive PosInf \<longleftrightarrow> True"
| "is_positive NegInf \<longleftrightarrow> False"
| "is_positive NaN \<longleftrightarrow> False"

text \<open>
  A grouped map in which sample \<open>s3\<close> has a reading of Bax and none of the housekeeping
  gene under the same condition.
\<close>

definition missing_s3 :: grouped_map where
  "missing_s3 =
     [((''treated'', ''GAPDH''), [(''s1'', Finite 20), (''s2'', Finite 21)]),
      ((''treated'', ''Bax''), [(''s1'', Finite 25), (''s2'', Finite 27), (''s3'', Finite 26)])]"

text \<open>
  A table of two readings with finite Ct values whose difference leaves the range of a
  double; a mean map in which Bax has no mean under the control condition; and a mean
  map with a \<open>\<Delta>\<Delta>Ct\<close> of -2000.
\<close>

definition overflowing_readings :: "reading list" where
  "overflowing_readings =
     [\<lparr>condition = ''control'', gene = ''GAPDH'', sample_id = ''s1'', ct = Finite (- (10 ^ 308))\<rparr>,
      \<lparr>condition = ''control'', gene = ''Bax'', sample_id = ''s1'', ct = Finite (10 ^ 308)\<rparr>]"

definition no_control_means :: value_map where
  "no_control_means =
     [((''control'', ''p53''), Finite 4), ((''treated'', ''p53''), Finite 3),
      ((''treated'', ''Bax''), Finite 3.5)]"

definition steep_means :: value_map where
  "steep_means = [((''control'', ''Bax''), Finite 0), ((''treated'', ''Bax''), Finite (- 2000))]"

section \<open>Lemmas on Python floats\<close>

lemma dbl_overflow_large: "10 ^ 300 < dbl_overflow"
  by (simp add: dbl_overflow_def)

lemma py_range_Finite: "\<bar>x\<bar> < dbl_overflow \<Longrightarrow> py_range x = Finite x"
  by (auto simp add: py_range_def)

lemma py_range_moderate: "\<bar>x\<bar> \<le> 10 ^ 300 \<Longrightarrow> py_range x = Finite x"
  using dbl_overflow_large by (intro py_range_Finite) linarith

lemma py_range_small: "\<bar>x\<bar> \<le> 10000 \<Longrightarrow> py_range x = Finite x"
  by (rule py_range_moderate) (simp add: order_trans [of _ 10000])

lemma py_sub_same: "py_sub (Finite x) (Finite x) = Finite 0"
  using dbl_overflow_large by (simp add: py_sub_def py_range_Finite)

lemma py_pow2_neg:
  "py_pow2 (py_neg v) = (if pow_overflows v then Inl OverflowError else Inr (fold_value v))"
  by (cases v) auto

lemma pow_in_range_fold_value:
  "pow_in_range v \<Longrightarrow> \<not> pow_overflows v \<and> is_positive (fold_value v)"
  by (cases v) auto

lemma foldl_py_add_Finite:
  "\<bar>a\<bar> + sum_list (map abs rs) < dbl_overflow \<Longrightarrow>
   foldl py_add (Finite a) (map Finite rs) = Finite (a + sum_list rs)"
proof (induction rs arbitrary: a)
  case Nil
  then show ?case by simp
next
  case (Cons r rest)
  have "0 \<le> sum_list (map abs rest)"
    by (induction rest) auto
  with Cons.prems have small: "\<bar>a + r\<bar> < dbl_overflow"
    and next_small: "\<bar>a + r\<bar> + sum_list (map abs rest) < dbl_overflow"
    by auto
  from Cons.IH [OF next_small] small show ?case
    by (simp add: py_range_Finite add.assoc)
qed

lemma py_sum_Finite:
  "sum_list (map abs rs) < dbl_overflow \<Longrightarrow> py_sum (map Finite rs) = Finite (sum_list rs)"
  using foldl_py_add_Finite [of 0 rs] by (simp add: py_sum_def)

section \<open>Lemmas on group\_ct\_values\<close>

lemma last_ct_Nil: "last_ct [] c g s = None"
  by (simp add: last_ct_def)

lemma last_ct_Cons:
  "last_ct (row # rest) c g s =
     (case last_ct rest c g s of
        Some v \<Rightarrow> Some v
      | None \<Rightarrow> if condition row = c \<and> gene row = g \<and> sample_id row = s then Some (ct row) else None)"
  by (simp add: last_ct_def split: list.splits)

lemma group_row_keys:
  "fst ` set (group_row grouped row) = insert (condition row, gene row) (fst ` set grouped)"
proof (cases "map_of grouped (condition row, gene row)")
  case None
  then show ?thesis
    by (simp add: group_row_def Let_def AList.dom_map_entry AList.dom_update)
next
  case (Some samples)
  then have "(condition row, gene row) \<in> fst ` set grouped"
    by (metis map_of_eq_None_iff option.distinct(1))
  with Some show ?thesis
    by (auto simp add: group_row_def Let_def AList.dom_map_entry)
qed

lemma group_row_distinct:
  "distinct (map fst grouped) \<Longrightarrow> distinct (map fst (group_row grouped row))"
  by (simp add: group_row_def Let_def AList.distinct_map_entry AList.distinct_update)

lemma group_row_sample_ct:
  "sample_ct (group_row grouped row) c g s =
     (if condition row = c \<and> gene row = g \<and> sample_id row = s then Some (ct row)
      else sample_ct grouped c g s)"
  by (auto simp add: sample_ct_def group_row_def Let_def AList.map_of_map_entry AList.update_conv'
      split: option.splits)

lemma group_loop_keys:
  "fst ` set (group_loop data grouped) =
     fst ` set grouped \<union> (\<lambda>r. (condition r, gene r)) ` set data"
  by (induction data arbitrary: grouped) (auto simp add: group_row_keys)

lemma group_loop_distinct:
  "distinct (map fst grouped) \<Longrightarrow> distinct (map fst (group_loop data grouped))"
  by (induction data arbitrary: grouped) (simp_all add: group_row_distinct)

lemma group_loop_sample_ct:
  "sample_ct (group_loop data grouped) c g s =
     (case last_ct data c g s of Some v \<Rightarrow> Some v | None \<Rightarrow> sample_ct grouped c g s)"
  by (induction data arbitrary: grouped)
     (auto simp add: last_ct_Nil last_ct_Cons group_row_sample_ct split: option.splits)

lemma list_all_update:
  "list_all P al \<Longrightarrow> P (k, v) \<Longrightarrow> list_all P (AList.update k v al)"
  by (induction al) auto

lemma list_all_map_entry:
  "list_all P al \<Longrightarrow> (\<And>v. P (k, v) \<Longrightarrow> P (k, f v)) \<Longrightarrow> list_all P (AList.map_entry k f al)"
  by (induction al) auto

lemma group_row_ok:
  assumes "grouped_ok grouped"
  shows "grouped_ok (group_row grouped row)"
proof -
  from assms have d: "distinct (map fst grouped)"
    and a: "list_all (\<lambda>(key, samples). distinct (map fst samples)) grouped"
    by (simp_all add: grouped_ok_def)
  have "list_all (\<lambda>(key, samples). distinct (map fst samples)) (group_row grouped row)"
    unfolding group_row_def Let_def
    by (auto intro!: list_all_map_entry list_all_update simp add: a AList.distinct_update)
  with group_row_distinct [OF d] show ?thesis
    by (simp add: grouped_ok_def)
qed

lemma group_loop_ok: "grouped_ok grouped \<Longrightarrow> grouped_ok (group_loop data grouped)"
  by (induction data arbitrary: grouped) (simp_all add: group_row_ok)


section \<open>Lemmas on compute\_delta\_ct\<close>

lemma housekeeping_samples_lookup:
  "distinct (map fst samples) \<Longrightarrow>
   map_of (housekeeping_samples cond samples housekeeping) (c, s) =
     (if c = cond \<and> s \<in> fst ` set samples then map_of samples s else map_of housekeeping (c, s))"
proof (induction samples arbitrary: housekeeping c s)
  case Nil
  then show ?case by simp
next
  case (Cons p rest)
  obtain s0 v0 where p: "p = (s0, v0)" by (cases p)
  from Cons.prems p have d: "distinct (map fst rest)" and n: "s0 \<notin> fst ` set rest"
    by auto
  show ?case
    using n by (auto simp add: p Cons.IH [OF d] AList.update_conv')
qed

lemma housekeeping_loop_lookup:
  "grouped_ok grouped \<Longrightarrow>
   map_of (housekeeping_loop hg grouped housekeeping) (c, s) =
     (case housekeeping_ct grouped hg c s of
        Some v \<Rightarrow> Some v
      | None \<Rightarrow> map_of housekeeping (c, s))"
proof (induction grouped arbitrary: housekeeping c s)
  case Nil
  then show ?case by (simp add: housekeeping_ct_def)
next
  case (Cons e rest)
  obtain cond g samples where e: "e = ((cond, g), samples)" by (cases e) auto
  from Cons.prems e have ok: "grouped_ok rest" and ds: "distinct (map fst samples)"
    and n: "(cond, g) \<notin> fst ` set rest"
    by (auto simp add: grouped_ok_def)
  have none: "map_of rest (cond, g) = None"
    using n by (simp add: map_of_eq_None_iff)
  show ?case
  proof (cases "g = hg")
    case True
    have step: "map_of (housekeeping_loop hg (e # rest) housekeeping) (c, s) =
        (case housekeeping_ct rest hg c s of
           Some v \<Rightarrow> Some v
         | None \<Rightarrow> if c = cond \<and> s \<in> fst ` set samples then map_of samples s
                   else map_of housekeeping (c, s))"
      using True
      by (simp add: e Cons.IH [OF ok] housekeeping_samples_lookup [OF ds] cong: option.case_cong)
    show ?thesis
    proof (cases "c = cond")
      case True
      with \<open>g = hg\<close> none have r: "housekeeping_ct rest hg c s = None"
        by (simp add: housekeeping_ct_def)
      have h: "housekeeping_ct (e # rest) hg c s = map_of samples s"
        using True \<open>g = hg\<close> by (simp add: e housekeeping_ct_def)
      show ?thesis
      proof (cases "map_of samples s")
        case None
        then have "s \<notin> fst ` set samples" by (simp add: map_of_eq_None_iff)
        with None show ?thesis unfolding step r h by simp
      next
        case (Some v)
        then have "s \<in> fst ` set samples"
          by (metis map_of_eq_None_iff option.distinct(1))
        with Some True show ?thesis unfolding step r h by simp
      qed
    next
      case False
      then have h: "housekeeping_ct (e # rest) hg c s = housekeeping_ct rest hg c s"
        by (simp add: e housekeeping_ct_def)
      from False show ?thesis unfolding step h by simp
    qed
  next
    case False
    then have h: "housekeeping_ct (e # rest) hg c s = housekeeping_ct rest hg c s"
      by (simp add: e housekeeping_ct_def)
    from False show ?thesis
      unfolding h by (simp add: e Cons.IH [OF ok])
  qed
qed

lemma housekeeping_loop_no_gene:
  "hg \<notin> snd ` fst ` set grouped \<Longrightarrow> housekeeping_loop hg grouped housekeeping = housekeeping"
  by (induction grouped arbitrary: housekeeping) (auto simp add: image_iff)

lemma delta_samples_concat:
  "delta_samples housekeeping cond samples dcts =
     dcts @ concat (map (\<lambda>p. case map_of housekeeping (cond, fst p) of
                               None \<Rightarrow> [] | Some hk_ct \<Rightarrow> [py_sub (snd p) hk_ct]) samples)"
  by (induction samples arbitrary: dcts) (auto split: option.splits)

lemma delta_samples_no_index: "delta_samples [] cond samples dcts = dcts"
  by (induction samples arbitrary: dcts) auto

lemma delta_loop_keys:
  "fst ` set (delta_loop hg housekeeping grouped delta_ct) =
     fst ` set delta_ct \<union> {k \<in> fst ` set grouped. snd k \<noteq> hg}"
proof (induction grouped arbitrary: delta_ct)
  case Nil
  then show ?case by simp
next
  case (Cons e rest)
  obtain cond g samples where e: "e = ((cond, g), samples)" by (cases e) auto
  show ?case
  proof (cases "g = hg")
    case True
    then show ?thesis
      unfolding e by (auto simp add: Cons.IH)
  next
    case False
    then show ?thesis
      unfolding e by (auto simp add: Cons.IH AList.dom_update)
  qed
qed

lemma delta_loop_distinct:
  "distinct (map fst delta_ct) \<Longrightarrow> distinct (map fst (delta_loop hg housekeeping grouped delta_ct))"
  by (induction grouped arbitrary: delta_ct) (auto simp add: AList.distinct_update)

lemma delta_loop_lookup:
  "distinct (map fst grouped) \<Longrightarrow>
   map_of (delta_loop hg housekeeping grouped delta_ct) (c, g) =
     (case map_of grouped (c, g) of
        None \<Rightarrow> map_of delta_ct (c, g)
      | Some samples \<Rightarrow>
          if g = hg then map_of delta_ct (c, g)
          else Some (delta_samples housekeeping c samples []))"
proof (induction grouped arbitrary: delta_ct c g)
  case Nil
  then show ?case by simp
next
  case (Cons e rest)
  obtain cond g0 samples where e: "e = ((cond, g0), samples)" by (cases e) auto
  from Cons.prems e have d: "distinct (map fst rest)" and n: "(cond, g0) \<notin> fst ` set rest"
    by auto
  have none: "map_of rest (cond, g0) = None"
    using n by (simp add: map_of_eq_None_iff)
  show ?case
    using none
    by (auto simp add: e Cons.IH [OF d] AList.update_conv' split: option.splits)
qed

lemma delta_loop_no_index:
  "hg \<notin> snd ` fst ` set grouped \<Longrightarrow>
   map_of (delta_loop hg [] grouped delta_ct) k =
     (if k \<in> fst ` set grouped then Some [] else map_of delta_ct k)"
proof (induction grouped arbitrary: delta_ct k)
  case Nil
  then show ?case by simp
next
  case (Cons e rest)
  obtain cond g samples where e: "e = ((cond, g), samples)" by (cases e) auto
  from Cons.prems e have ne: "g \<noteq> hg" and r: "hg \<notin> snd ` fst ` set rest"
    by (auto simp add: image_iff)
  show ?case
    using ne by (simp add: e Cons.IH [OF r] delta_samples_no_index AList.update_conv')
qed


section \<open>Lemmas on average\_delta\_ct\<close>

lemma average_loop_lookup:
  "distinct (map fst delta_ct) \<Longrightarrow>
   map_of (average_loop delta_ct mean_delta_ct) k =
     (case map_of delta_ct k of
        None \<Rightarrow> map_of mean_delta_ct k
      | Some vals \<Rightarrow>
          if vals = [] then map_of mean_delta_ct k
          else Some (py_truediv (py_sum vals) (length vals)))"
proof (induction delta_ct arbitrary: mean_delta_ct k)
  case Nil
  then show ?case by simp
next
  case (Cons e rest)
  obtain key vals where e: "e = (key, vals)" by (cases e)
  from Cons.prems e have d: "distinct (map fst rest)" and n: "key \<notin> fst ` set rest"
    by auto
  have none: "map_of rest key = None"
    using n by (simp add: map_of_eq_None_iff)
  show ?case
    using none
    by (auto simp add: e Cons.IH [OF d] AList.update_conv' split: option.splits)
qed

lemma average_loop_distinct:
  "distinct (map fst mean_delta_ct) \<Longrightarrow>
   distinct (map fst (average_loop delta_ct mean_delta_ct))"
  by (induction delta_ct arbitrary: mean_delta_ct) (auto simp add: AList.distinct_update)

lemma average_loop_all_empty:
  "list_all (\<lambda>(key, vals). vals = []) delta_ct \<Longrightarrow> average_loop delta_ct mean_delta_ct = mean_delta_ct"
  by (induction delta_ct arbitrary: mean_delta_ct) auto

lemma map_of_all_values:
  "distinct (map fst al) \<Longrightarrow> (\<And>k v. map_of al k = Some v \<Longrightarrow> P v) \<Longrightarrow>
   list_all (\<lambda>(k, v). P v) al"
  by (auto simp add: list_all_iff)


section \<open>Lemmas on compute\_ddct\<close>

lemma ddct_conditions_result:
  "set ks \<subseteq> fst ` set mean_delta_ct \<Longrightarrow>
   \<exists>ddct1. ddct_conditions gene_name control_dct mean_delta_ct ks ddct = Inr ddct1 \<and>
     (distinct (map fst ddct) \<longrightarrow> distinct (map fst ddct1)) \<and>
     (\<forall>k. map_of ddct1 k =
        (if k \<in> set ks \<and> snd k = gene_name
         then map_option (\<lambda>dct. py_sub dct control_dct) (map_of mean_delta_ct k)
         else map_of ddct k))"
proof (induction ks arbitrary: ddct)
  case Nil
  then show ?case by simp
next
  case (Cons key rest)
  obtain cond g where key: "key = (cond, g)" by (cases key)
  from Cons.prems have sub: "set rest \<subseteq> fst ` set mean_delta_ct"
    and mem: "key \<in> fst ` set mean_delta_ct"
    by auto
  show ?case
  proof (cases "g = gene_name")
    case False
    from Cons.IH [OF sub, of ddct] obtain ddct1 where
      r: "ddct_conditions gene_name control_dct mean_delta_ct rest ddct = Inr ddct1"
      and dd: "distinct (map fst ddct) \<longrightarrow> distinct (map fst ddct1)"
      and l: "\<forall>k. map_of ddct1 k =
        (if k \<in> set rest \<and> snd k = gene_name
         then map_option (\<lambda>dct. py_sub dct control_dct) (map_of mean_delta_ct k)
         else map_of ddct k)"
      by blast
    from False r have "ddct_conditions gene_name control_dct mean_delta_ct (key # rest) ddct = Inr ddct1"
      by (simp add: key)
    moreover from False l have "\<forall>k. map_of ddct1 k =
        (if k \<in> set (key # rest) \<and> snd k = gene_name
         then map_option (\<lambda>dct. py_sub dct control_dct) (map_of mean_delta_ct k)
         else map_of ddct k)"
      by (auto simp add: key)
    ultimately show ?thesis using dd by blast
  next
    case True
    from mem obtain dct where dct: "map_of mean_delta_ct key = Some dct"
      by (metis map_of_eq_None_iff not_Some_eq)
    let ?d = "AList.update key (py_sub dct control_dct) ddct"
    from Cons.IH [OF sub, of ?d] obtain ddct1 where
      r: "ddct_conditions gene_name control_dct mean_delta_ct rest ?d = Inr ddct1"
      and dd: "distinct (map fst ?d) \<longrightarrow> distinct (map fst ddct1)"
      and l: "\<forall>k. map_of ddct1 k =
        (if k \<in> set rest \<and> snd k = gene_name
         then map_option (\<lambda>dct. py_sub dct control_dct) (map_of mean_delta_ct k)
         else map_of ?d k)"
      by blast
    from True r dct have "ddct_conditions gene_name control_dct mean_delta_ct (key # rest) ddct = Inr ddct1"
      by (simp add: key)
    moreover from True l dct have "\<forall>k. map_of ddct1 k =
        (if k \<in> set (key # rest) \<and> snd k = gene_name
         then map_option (\<lambda>dct. py_sub dct control_dct) (map_of mean_delta_ct k)
         else map_of ddct k)"
      by (auto simp add: key AList.update_conv')
    moreover from dd have "distinct (map fst ddct) \<longrightarrow> distinct (map fst ddct1)"
      by (simp add: AList.distinct_update)
    ultimately show ?thesis by blast
  qed
qed

lemma ddct_genes_result:
  "\<exists>ddct1. ddct_genes control_condition mean_delta_ct gs ddct = Inr ddct1 \<and>
     (distinct (map fst ddct) \<longrightarrow> distinct (map fst ddct1)) \<and>
     (\<forall>k. map_of ddct1 k =
        (if snd k \<in> set gs
         then (case ddct_entry mean_delta_ct control_condition k of
                 None \<Rightarrow> map_of ddct k
               | Some v \<Rightarrow> Some v)
         else map_of ddct k))"
proof (induction gs arbitrary: ddct)
  case Nil
  then show ?case by simp
next
  case (Cons gene_name rest)
  show ?case
  proof (cases "map_of mean_delta_ct (control_condition, gene_name)")
    case None
    from Cons.IH [of ddct] obtain ddct1 where
      r: "ddct_genes control_condition mean_delta_ct rest ddct = Inr ddct1"
      and dd: "distinct (map fst ddct) \<longrightarrow> distinct (map fst ddct1)"
      and l: "\<forall>k. map_of ddct1 k =
        (if snd k \<in> set rest
         then (case ddct_entry mean_delta_ct control_condition k of
                 None \<Rightarrow> map_of ddct k
               | Some v \<Rightarrow> Some v)
         else map_of ddct k)"
      by blast
    from None r have "ddct_genes control_condition mean_delta_ct (gene_name # rest) ddct = Inr ddct1"
      by simp
    moreover from None l have "\<forall>k. map_of ddct1 k =
        (if snd k \<in> set (gene_name # rest)
         then (case ddct_entry mean_delta_ct control_condition k of
                 None \<Rightarrow> map_of ddct k
               | Some v \<Rightarrow> Some v)
         else map_of ddct k)"
      by (auto simp add: ddct_entry_def)
    ultimately show ?thesis using dd by blast
  next
    case (Some control_dct)
    have "set (map fst mean_delta_ct) \<subseteq> fst ` set mean_delta_ct" by simp
    from ddct_conditions_result [OF this, of gene_name control_dct ddct] obtain ddct0 where
      r0: "ddct_conditions gene_name control_dct mean_delta_ct (map fst mean_delta_ct) ddct = Inr ddct0"
      and dd0: "distinct (map fst ddct) \<longrightarrow> distinct (map fst ddct0)"
      and l0: "\<forall>k. map_of ddct0 k =
        (if k \<in> set (map fst mean_delta_ct) \<and> snd k = gene_name
         then map_option (\<lambda>dct. py_sub dct control_dct) (map_of mean_delta_ct k)
         else map_of ddct k)"
      by blast
    from Cons.IH [of ddct0] obtain ddct1 where
      r: "ddct_genes control_condition mean_delta_ct rest ddct0 = Inr ddct1"
      and dd: "distinct (map fst ddct0) \<longrightarrow> distinct (map fst ddct1)"
      and l: "\<forall>k. map_of ddct1 k =
        (if snd k \<in> set rest
         then (case ddct_entry mean_delta_ct control_condition k of
                 None \<Rightarrow> map_of ddct0 k
               | Some v \<Rightarrow> Some v)
         else map_of ddct0 k)"
      by blast
    from Some r0 r have "ddct_genes control_condition mean_delta_ct (gene_name # rest) ddct = Inr ddct1"
      by simp
    moreover have "map_of ddct1 k =
        (if snd k \<in> set (gene_name # rest)
         then (case ddct_entry mean_delta_ct control_condition k of
                 None \<Rightarrow> map_of ddct k
               | Some v \<Rightarrow> Some v)
         else map_of ddct k)" for k
    proof (cases "map_of mean_delta_ct k")
      case None
      then have "k \<notin> set (map fst mean_delta_ct)"
        by (simp add: map_of_eq_None_iff)
      with l0 [rule_format, of k] have "map_of ddct0 k = map_of ddct k" by simp
      moreover from None have "ddct_entry mean_delta_ct control_condition k = None"
        by (simp add: ddct_entry_def split: option.splits)
      ultimately show ?thesis
        using l [rule_format, of k] by simp
    next
      case (Some dct)
      then have "k \<in> set (map fst mean_delta_ct)"
        by (metis map_of_eq_None_iff option.distinct(1) set_map)
      note in_keys = this
      note lk = l [rule_format, of k] and l0k = l0 [rule_format, of k]
      show ?thesis
      proof (cases "snd k = gene_name")
        case True
        with Some \<open>map_of mean_delta_ct (control_condition, gene_name) = Some control_dct\<close>
        have en: "ddct_entry mean_delta_ct control_condition k = Some (py_sub dct control_dct)"
          by (simp add: ddct_entry_def)
        from True in_keys Some l0k have "map_of ddct0 k = Some (py_sub dct control_dct)"
          by simp
        with lk en True show ?thesis by simp
      next
        case False
        with l0k have "map_of ddct0 k = map_of ddct k" by simp
        with lk False show ?thesis by (simp cong: option.case_cong)
      qed
    qed
    ultimately show ?thesis using dd dd0 by blast
  qed
qed

lemma ddct_genes_order:
  assumes "set gs = set gs'"
    and "ddct_genes control_condition mean_delta_ct gs [] = Inr ddct"
    and "ddct_genes control_condition mean_delta_ct gs' [] = Inr ddct'"
  shows "map_of ddct = map_of ddct'"
proof
  fix k
  from ddct_genes_result [of control_condition mean_delta_ct gs "[]"] obtain d1 where
    r1: "ddct_genes control_condition mean_delta_ct gs [] = Inr d1"
    and l1: "\<forall>k. map_of d1 k =
        (if snd k \<in> set gs
         then (case ddct_entry mean_delta_ct control_condition k of
                 None \<Rightarrow> map_of [] k
               | Some v \<Rightarrow> Some v)
         else map_of [] k)"
    by blast
  from r1 assms(2) have e1: "d1 = ddct" by simp
  from ddct_genes_result [of control_condition mean_delta_ct gs' "[]"] obtain d2 where
    r2: "ddct_genes control_condition mean_delta_ct gs' [] = Inr d2"
    and l2: "\<forall>k. map_of d2 k =
        (if snd k \<in> set gs'
         then (case ddct_entry mean_delta_ct control_condition k of
                 None \<Rightarrow> map_of [] k
               | Some v \<Rightarrow> Some v)
         else map_of [] k)"
    by blast
  from r2 assms(3) have e2: "d2 = ddct'" by simp
  from l1 [rule_format, of k] l2 [rule_format, of k] assms(1)
  show "map_of ddct k = map_of ddct' k"
    unfolding e1 e2 by simp
qed

lemma ddct_entry_genes_of:
  "ddct_entry mean_delta_ct control_condition k = Some v \<Longrightarrow> snd k \<in> set (genes_of mean_delta_ct)"
proof -
  assume "ddct_entry mean_delta_ct control_condition k = Some v"
  then have "map_of mean_delta_ct k \<noteq> None"
    by (auto simp add: ddct_entry_def split: option.splits)
  then have "k \<in> fst ` set mean_delta_ct"
    by (simp add: map_of_eq_None_iff)
  then show ?thesis
    by (force simp add: genes_of_def)
qed

lemma compute_ddct_result:
  "\<exists>ddct. compute_ddct mean_delta_ct control_condition = Inr ddct \<and>
     distinct (map fst ddct) \<and>
     (\<forall>k. map_of ddct k = ddct_entry mean_delta_ct control_condition k)"
proof -
  from ddct_genes_result [of control_condition mean_delta_ct "genes_of mean_delta_ct" "[]"]
  obtain ddct where
    r: "ddct_genes control_condition mean_delta_ct (genes_of mean_delta_ct) [] = Inr ddct"
    and dd0: "distinct (map fst ([] :: value_map)) \<longrightarrow> distinct (map fst ddct)"
    and l0: "\<forall>k. map_of ddct k =
        (if snd k \<in> set (genes_of mean_delta_ct)
         then (case ddct_entry mean_delta_ct control_condition k of
                 None \<Rightarrow> map_of [] k
               | Some v \<Rightarrow> Some v)
         else map_of [] k)"
    by blast
  from dd0 have dd: "distinct (map fst ddct)" by simp
  from l0 have l: "\<forall>k. map_of ddct k =
        (if snd k \<in> set (genes_of mean_delta_ct)
         then (case ddct_entry mean_delta_ct control_condition k of
                 None \<Rightarrow> None
               | Some v \<Rightarrow> Some v)
         else None)"
    by (simp cong: option.case_cong)
  have "map_of ddct k = ddct_entry mean_delta_ct control_condition k" for k
  proof (cases "ddct_entry mean_delta_ct control_condition k")
    case None
    with l [rule_format, of k] show ?thesis by simp
  next
    case (Some v)
    from ddct_entry_genes_of [OF Some] Some l [rule_format, of k] show ?thesis by simp
  qed
  with r dd show ?thesis by (simp add: compute_ddct_def)
qed


section \<open>Lemmas on compute\_fold\_change\<close>

lemma update_new_key:
  "key \<notin> fst ` set al \<Longrightarrow> AList.update key v al = al @ [(key, v)]"
  by (induction al) auto

lemma fold_change_loop_result:
  "distinct (map fst ddct_dict) \<Longrightarrow> fst ` set ddct_dict \<inter> fst ` set fold_change = {} \<Longrightarrow>
   fold_change_loop ddct_dict fold_change =
     (if list_ex (\<lambda>(key, v). pow_overflows v) ddct_dict then Inl OverflowError
      else Inr (fold_change @ map (\<lambda>(key, v). (key, fold_value v)) ddct_dict))"
proof (induction ddct_dict arbitrary: fold_change)
  case Nil
  then show ?case by simp
next
  case (Cons e rest)
  obtain key v where e: "e = (key, v)" by (cases e)
  from Cons.prems e have d: "distinct (map fst rest)" and n: "key \<notin> fst ` set rest"
    and nf: "key \<notin> fst ` set fold_change" and dis: "fst ` set rest \<inter> fst ` set fold_change = {}"
    by auto
  show ?case
  proof (cases "pow_overflows v")
    case True
    then show ?thesis by (simp add: e py_pow2_neg)
  next
    case False
    have "fst ` set rest \<inter> fst ` set (fold_change @ [(key, fold_value v)]) = {}"
      using n dis by auto
    from Cons.IH [OF d this] False show ?thesis
      by (simp add: e py_pow2_neg update_new_key [OF nf])
  qed
qed

lemma compute_fold_change_result:
  "distinct (map fst ddct_dict) \<Longrightarrow>
   compute_fold_change ddct_dict =
     (if list_ex (\<lambda>(key, v). pow_overflows v) ddct_dict then Inl OverflowError
      else Inr (map (\<lambda>(key, v). (key, fold_value v)) ddct_dict))"
  by (simp add: compute_fold_change_def fold_change_loop_result)

lemma compute_fold_change_lookup:
  "distinct (map fst ddct_dict) \<Longrightarrow> compute_fold_change ddct_dict = Inr fold_change \<Longrightarrow>
   map_of fold_change k = map_option fold_value (map_of ddct_dict k)"
  by (auto simp add: compute_fold_change_result map_of_map split: if_splits)

section \<open>The properties\<close>

text \<open>
  C1. The pipeline on the four readings of the scenario, with housekeeping gene GAPDH and
  control condition control, gives the mean \<open>\<Delta>Ct\<close> 5 for (control, Bax) and 3.5 for
  (treated, Bax), the \<open>\<Delta>\<Delta>Ct\<close> 0 and -1.5, and the fold change \<open>2 powr 1.5\<close> for
  (treated, Bax). The three maps are given whole: they have no other entry.
\<close>

theorem pipeline_scenario:
  "pipeline scenario ''GAPDH'' ''control'' =
     Inr ([((''control'', ''Bax''), Finite 5), ((''treated'', ''Bax''), Finite 3.5)],
          [((''control'', ''Bax''), Finite 0), ((''treated'', ''Bax''), Finite (- 1.5))],
          [((''control'', ''Bax''), Finite 1), ((''treated'', ''Bax''), Finite (2 powr 1.5))])"
  by (simp add: pipeline_def group_ct_values_def scenario_def group_row_def compute_delta_ct_def
      average_delta_ct_def py_sum_def compute_ddct_def genes_of_def compute_fold_change_def Let_def
      py_sub_def py_range_small)

text \<open>
  C2. When the mean map has no entry for (control condition, g), \<open>compute_ddct\<close> returns a
  map without any entry for gene g, whatever the condition, and so has every map that
  \<open>compute_fold_change\<close> returns for that result.
\<close>

theorem missing_control_excludes_gene:
  assumes "map_of mean_delta_ct (control_condition, g) = None"
  shows "\<exists>ddct. compute_ddct mean_delta_ct control_condition = Inr ddct \<and>
           (\<forall>c. map_of ddct (c, g) = None \<and>
                (\<forall>fold_change. compute_fold_change ddct = Inr fold_change \<longrightarrow>
                   map_of fold_change (c, g) = None))"
proof -
  from compute_ddct_result [of mean_delta_ct control_condition] obtain ddct where
    r: "compute_ddct mean_delta_ct control_condition = Inr ddct"
    and d: "distinct (map fst ddct)"
    and l: "\<forall>k. map_of ddct k = ddct_entry mean_delta_ct control_condition k"
    by blast
  have n: "map_of ddct (c, g) = None" for c
    using l [rule_format, of "(c, g)"] assms by (simp add: ddct_entry_def)
  have "map_of fold_change (c, g) = None"
    if "compute_fold_change ddct = Inr fold_change" for c fold_change
    using compute_fold_change_lookup [OF d that, of "(c, g)"] n [of c] by simp
  with n r show ?thesis by blast
qed

theorem missing_control_excludes_gene_witness:
  "map_of no_control_means (''control'', ''Bax'') = None \<and>
   compute_ddct no_control_means ''control'' =
     Inr [((''control'', ''p53''), Finite 0), ((''treated'', ''p53''), Finite (- 1))] \<and>
   compute_fold_change [((''control'', ''p53''), Finite 0), ((''treated'', ''p53''), Finite (- 1))] =
     Inr [((''control'', ''p53''), Finite 1), ((''treated'', ''p53''), Finite 2)] \<and>
   (\<exists>ddct. compute_ddct no_control_means ''control'' = Inr ddct \<and>
      (\<forall>c. map_of ddct (c, ''Bax'') = None \<and>
           (\<forall>fold_change. compute_fold_change ddct = Inr fold_change \<longrightarrow>
              map_of fold_change (c, ''Bax'') = None)))"
proof -
  have h: "map_of no_control_means (''control'', ''Bax'') = None"
    by (simp add: no_control_means_def)
  have a: "compute_ddct no_control_means ''control'' =
     Inr [((''control'', ''p53''), Finite 0), ((''treated'', ''p53''), Finite (- 1))]"
    by (simp add: no_control_means_def compute_ddct_def genes_of_def py_sub_def py_range_small)
  have b: "compute_fold_change [((''control'', ''p53''), Finite 0), ((''treated'', ''p53''), Finite (- 1))] =
     Inr [((''control'', ''p53''), Finite 1), ((''treated'', ''p53''), Finite 2)]"
    by (simp add: compute_fold_change_def)
  from missing_control_excludes_gene [OF h] h a b show ?thesis by blast
qed

text \<open>
  C3, as stated, does not hold: with a housekeeping gene that names no key, the result of
  \<open>compute_delta_ct\<close> is not the empty map. The loop stores the empty list under every
  key before it looks at the samples. The grouped map here is the one of a table with a
  single reading of Bax.
\<close>

theorem no_housekeeping_counterexample:
  "group_ct_values [\<lparr>condition = ''control'', gene = ''Bax'', sample_id = ''s1'', ct = Finite 25\<rparr>] =
     [((''control'', ''Bax''), [(''s1'', Finite 25)])] \<and>
   ''GAPDH'' \<notin> snd ` fst ` set [((''control'', ''Bax''), [(''s1'', Finite 25)])] \<and>
   compute_delta_ct [((''control'', ''Bax''), [(''s1'', Finite 25)])] ''GAPDH'' = [((''control'', ''Bax''), [])] \<and>
   compute_delta_ct [((''control'', ''Bax''), [(''s1'', Finite 25)])] ''GAPDH'' \<noteq> []"
  by (simp add: compute_delta_ct_def group_ct_values_def group_row_def)

text \<open>
  C3, amended. When the housekeeping gene is the gene of no key of the grouped map,
  \<open>compute_delta_ct\<close> returns a map that has every key of the input, each with the empty
  \<open>\<Delta>Ct\<close> sequence, and no other key; \<open>average_delta_ct\<close> of it is the empty map.
\<close>

theorem no_housekeeping_all_empty:
  assumes "housekeeping_gene \<notin> snd ` fst ` set grouped"
  shows "(\<forall>k. map_of (compute_delta_ct grouped housekeeping_gene) k =
            (if k \<in> fst ` set grouped then Some [] else None)) \<and>
         average_delta_ct (compute_delta_ct grouped housekeeping_gene) = []"
proof -
  have c: "compute_delta_ct grouped housekeeping_gene = delta_loop housekeeping_gene [] grouped []"
    by (simp add: compute_delta_ct_def housekeeping_loop_no_gene [OF assms])
  have l: "map_of (compute_delta_ct grouped housekeeping_gene) k =
            (if k \<in> fst ` set grouped then Some [] else None)" for k
    unfolding c by (simp add: delta_loop_no_index [OF assms])
  have d: "distinct (map fst (compute_delta_ct grouped housekeeping_gene))"
    unfolding c by (simp add: delta_loop_distinct)
  have "list_all (\<lambda>(key, vals). vals = []) (compute_delta_ct grouped housekeeping_gene)"
  proof (rule map_of_all_values [OF d])
    fix k v
    assume "map_of (compute_delta_ct grouped housekeeping_gene) k = Some v"
    with l [of k] show "v = []" by (simp split: if_splits)
  qed
  then have "average_delta_ct (compute_delta_ct grouped housekeeping_gene) = []"
    by (simp add: average_delta_ct_def average_loop_all_empty)
  with l show ?thesis by blast
qed

theorem no_housekeeping_all_empty_witness:
  "''GAPDH'' \<notin> snd ` fst ` set [((''control'', ''Bax''), [(''s1'', Finite 25)])] \<and>
   (\<forall>k. map_of (compute_delta_ct [((''control'', ''Bax''), [(''s1'', Finite 25)])] ''GAPDH'') k =
      (if k \<in> fst ` set [((''control'', ''Bax''), [(''s1'', Finite 25)])] then Some [] else None)) \<and>
   average_delta_ct (compute_delta_ct [((''control'', ''Bax''), [(''s1'', Finite 25)])] ''GAPDH'') = []"
  using no_housekeeping_all_empty [of "''GAPDH''" "[((''control'', ''Bax''), [(''s1'', Finite 25)])]"]
  by simp

text \<open>
  C4. The housekeeping index built by the first loop holds, for a condition and a sample,
  the Ct of that sample under (condition, housekeeping gene). For a key (cond, g) of the
  grouped map whose gene is not the housekeeping gene, the \<open>\<Delta>Ct\<close> sequence of the key
  is made of the samples of the key in their order:
  a sample with a housekeeping Ct under the same condition gives its Ct minus that Ct, a
  sample without one gives nothing. The length of the sequence is the number of samples
  that have a housekeeping Ct.
\<close>

theorem delta_ct_sequence:
  assumes "grouped_ok grouped"
    and "g \<noteq> housekeeping_gene"
    and "map_of grouped (cond, g) = Some samples"
  shows "(\<forall>s. map_of (housekeeping_loop housekeeping_gene grouped []) (cond, s) =
              housekeeping_ct grouped housekeeping_gene cond s) \<and>
         map_of (compute_delta_ct grouped housekeeping_gene) (cond, g) =
           Some (concat (map (delta_of_sample grouped housekeeping_gene cond) samples)) \<and>
         length (concat (map (delta_of_sample grouped housekeeping_gene cond) samples)) =
           length (filter (\<lambda>p. housekeeping_ct grouped housekeeping_gene cond (fst p) \<noteq> None) samples)"
proof -
  let ?hk = "housekeeping_loop housekeeping_gene grouped []"
  from assms(1) have d: "distinct (map fst grouped)"
    by (simp add: grouped_ok_def)
  have idx: "map_of ?hk (cond, s) = housekeeping_ct grouped housekeeping_gene cond s" for s
    by (simp add: housekeeping_loop_lookup [OF assms(1)] split: option.splits)
  have "(\<lambda>p. case map_of ?hk (cond, fst p) of None \<Rightarrow> [] | Some hk_ct \<Rightarrow> [py_sub (snd p) hk_ct]) =
        delta_of_sample grouped housekeeping_gene cond"
    by (rule ext) (simp add: idx delta_of_sample_def)
  then have "delta_samples ?hk cond samples [] =
        concat (map (delta_of_sample grouped housekeeping_gene cond) samples)"
    by (simp add: delta_samples_concat)
  with assms(2,3) have
    "map_of (compute_delta_ct grouped housekeeping_gene) (cond, g) =
       Some (concat (map (delta_of_sample grouped housekeeping_gene cond) samples))"
    by (simp add: compute_delta_ct_def delta_loop_lookup [OF d])
  moreover have
    "length (concat (map (delta_of_sample grouped housekeeping_gene cond) ps)) =
       length (filter (\<lambda>p. housekeeping_ct grouped housekeeping_gene cond (fst p) \<noteq> None) ps)" for ps
    by (induction ps) (auto simp add: delta_of_sample_def split: option.splits)
  ultimately show ?thesis using idx by blast
qed

theorem delta_ct_sequence_witness:
  "grouped_ok missing_s3 \<and> ''Bax'' \<noteq> ''GAPDH'' \<and>
   map_of missing_s3 (''treated'', ''Bax'') =
     Some [(''s1'', Finite 25), (''s2'', Finite 27), (''s3'', Finite 26)] \<and>
   map_of (housekeeping_loop ''GAPDH'' missing_s3 []) (''treated'', ''s3'') = None \<and>
   map_of (compute_delta_ct missing_s3 ''GAPDH'') (''treated'', ''Bax'') = Some [Finite 5, Finite 6] \<and>
   length (concat (map (delta_of_sample missing_s3 ''GAPDH'' ''treated'')
                    [(''s1'', Finite 25), (''s2'', Finite 27), (''s3'', Finite 26)])) = 2"
proof -
  have ok: "grouped_ok missing_s3"
    by (simp add: grouped_ok_def missing_s3_def)
  have ne: "''Bax'' \<noteq> ''GAPDH''" by simp
  have m: "map_of missing_s3 (''treated'', ''Bax'') =
      Some [(''s1'', Finite 25), (''s2'', Finite 27), (''s3'', Finite 26)]"
    by (simp add: missing_s3_def)
  have v: "concat (map (delta_of_sample missing_s3 ''GAPDH'' ''treated'')
                    [(''s1'', Finite 25), (''s2'', Finite 27), (''s3'', Finite 26)]) =
           [Finite 5, Finite 6]"
    by (simp add: delta_of_sample_def housekeeping_ct_def missing_s3_def py_sub_def py_range_small)
  have h: "housekeeping_ct missing_s3 ''GAPDH'' ''treated'' ''s3'' = None"
    by (simp add: housekeeping_ct_def missing_s3_def)
  from delta_ct_sequence [OF ok ne m] ok m v h show ?thesis by simp
qed

text \<open>
  C5. The keys of \<open>group_ct_values data\<close> are the (condition, gene) pairs of the readings,
  each key once, every sample map with each sample once; and the Ct found under
  (condition, gene) and a sample is the Ct of the last reading with that condition, gene
  and sample (nothing is found when there is no such reading). This holds for the empty
  table as well.
\<close>

theorem group_ct_values_last_write_wins:
  "fst ` set (group_ct_values data) = (\<lambda>r. (condition r, gene r)) ` set data \<and>
   grouped_ok (group_ct_values data) \<and>
   (\<forall>c g s. sample_ct (group_ct_values data) c g s = last_ct data c g s)"
proof -
  have "grouped_ok []" by (simp add: grouped_ok_def)
  then have "grouped_ok (group_ct_values data)"
    unfolding group_ct_values_def by (rule group_loop_ok)
  moreover have "sample_ct (group_ct_values data) c g s = last_ct data c g s" for c g s
  proof -
    have "sample_ct [] c g s = None" by (simp add: sample_ct_def)
    then show ?thesis
      by (simp add: group_ct_values_def group_loop_sample_ct split: option.splits)
  qed
  ultimately show ?thesis
    by (simp add: group_ct_values_def group_loop_keys)
qed

text \<open>
  C6. \<open>average_delta_ct\<close> has an entry for a key exactly when the key has a non-empty
  \<open>\<Delta>Ct\<close> sequence, and the entry is the sum of the sequence divided by its length, as the
  program computes them on floats. A key with the empty sequence has no entry. For finite
  values whose magnitudes add up to less than \<open>dbl_overflow\<close> that float is the sum of
  the numbers divided by their number.
\<close>

theorem average_delta_ct_mean:
  assumes "distinct (map fst delta_ct)"
  shows "map_of (average_delta_ct delta_ct) k =
           (case map_of delta_ct k of
              None \<Rightarrow> None
            | Some vals \<Rightarrow>
                if vals = [] then None else Some (py_truediv (py_sum vals) (length vals))) \<and>
         (\<forall>rs. sum_list (map abs rs) < dbl_overflow \<longrightarrow>
            py_truediv (py_sum (map Finite rs)) (length (map Finite rs)) =
              Finite (sum_list rs / real (length rs)))"
  by (simp add: average_delta_ct_def average_loop_lookup [OF assms] py_sum_Finite
      split: option.splits)

theorem average_delta_ct_mean_witness:
  "distinct (map fst [((''control'', ''Bax''), [Finite 5, Finite 6]), ((''treated'', ''Bax''), [])]) \<and>
   sum_list (map abs [5, 6]) < dbl_overflow \<and>
   map_of (average_delta_ct [((''control'', ''Bax''), [Finite 5, Finite 6]), ((''treated'', ''Bax''), [])])
     (''control'', ''Bax'') = Some (Finite (11 / 2)) \<and>
   map_of (average_delta_ct [((''control'', ''Bax''), [Finite 5, Finite 6]), ((''treated'', ''Bax''), [])])
     (''treated'', ''Bax'') = None"
proof -
  have d: "distinct (map fst [((''control'', ''Bax''), [Finite 5, Finite 6]), ((''treated'', ''Bax''), [])])"
    by simp
  have s: "sum_list (map abs [5, 6]) < dbl_overflow"
    using dbl_overflow_large by simp
  note t1 = average_delta_ct_mean [OF d, of "(''control'', ''Bax'')"]
  note t2 = average_delta_ct_mean [OF d, of "(''treated'', ''Bax'')"]
  from t1 have "sum_list (map abs [5, 6]) < dbl_overflow \<longrightarrow>
      py_truediv (py_sum (map Finite [5, 6])) (length (map Finite [5, 6])) =
        Finite (sum_list [5, 6] / real (length [5, 6 :: real]))"
    by blast
  with s have v: "py_truediv (py_sum [Finite 5, Finite 6]) (Suc (Suc 0)) = Finite (11 / 2)"
    by simp
  from t1 t2 v d s show ?thesis by simp
qed

text \<open>
  C7, as stated, does not hold. The two readings of \<open>overflowing_readings\<close> have finite Ct
  values; their \<open>\<Delta>Ct\<close> is \<open>inf\<close>, so is the mean under the control condition, and the
  \<open>\<Delta>\<Delta>Ct\<close> of the control key is \<open>inf - inf\<close>, which is \<open>nan\<close> and not 0.0. And with the means
  0 and -2000 the \<open>\<Delta>\<Delta>Ct\<close> of the control key is 0.0, but \<open>compute_fold_change\<close> raises
  OverflowError at the other key and returns no map.
\<close>

theorem control_self_comparison_counterexample:
  "average_delta_ct (compute_delta_ct (group_ct_values overflowing_readings) ''GAPDH'') =
     [((''control'', ''Bax''), PosInf)] \<and>
   compute_ddct [((''control'', ''Bax''), PosInf)] ''control'' = Inr [((''control'', ''Bax''), NaN)] \<and>
   map_of steep_means (''control'', ''Bax'') = Some (Finite 0) \<and>
   compute_ddct steep_means ''control'' = Inr steep_means \<and>
   compute_fold_change steep_means = Inl OverflowError"
proof -
  have "(2 :: real) * 10 ^ 308 \<ge> dbl_overflow"
    by (simp add: dbl_overflow_def)
  then have "py_sub (Finite (10 ^ 308)) (Finite (- (10 ^ 308))) = PosInf"
    by (simp add: py_sub_def py_range_def)
  then have "average_delta_ct (compute_delta_ct (group_ct_values overflowing_readings) ''GAPDH'') =
     [((''control'', ''Bax''), PosInf)]"
    by (simp add: overflowing_readings_def group_ct_values_def group_row_def compute_delta_ct_def
        average_delta_ct_def py_sum_def Let_def)
  moreover have "compute_ddct [((''control'', ''Bax''), PosInf)] ''control'' =
      Inr [((''control'', ''Bax''), NaN)]"
    by (simp add: compute_ddct_def genes_of_def py_sub_def)
  moreover have "compute_ddct steep_means ''control'' = Inr steep_means"
    by (simp add: steep_means_def compute_ddct_def genes_of_def py_sub_def py_range_small)
  moreover have "compute_fold_change steep_means = Inl OverflowError"
    by (simp add: steep_means_def compute_fold_change_def)
  ultimately show ?thesis
    by (simp add: steep_means_def)
qed

text \<open>
  C7, amended. For a gene g whose mean under the control condition is a finite float,
  \<open>compute_ddct\<close> returns a map with the value 0.0 at (control condition, g). When a value
  of that map is finite and at most -1024, \<open>compute_fold_change\<close> raises OverflowError;
  otherwise it returns a map with the value 1.0 at (control condition, g).
\<close>

theorem control_self_comparison:
  assumes "map_of mean_delta_ct (control_condition, g) = Some (Finite x)"
  shows "\<exists>ddct. compute_ddct mean_delta_ct control_condition = Inr ddct \<and>
           map_of ddct (control_condition, g) = Some (Finite 0) \<and>
           (if list_ex (\<lambda>(key, v). pow_overflows v) ddct
            then compute_fold_change ddct = Inl OverflowError
            else \<exists>fold_change. compute_fold_change ddct = Inr fold_change \<and>
                   map_of fold_change (control_condition, g) = Some (Finite 1))"
proof -
  from compute_ddct_result [of mean_delta_ct control_condition] obtain ddct where
    r: "compute_ddct mean_delta_ct control_condition = Inr ddct"
    and d: "distinct (map fst ddct)"
    and l: "\<forall>k. map_of ddct k = ddct_entry mean_delta_ct control_condition k"
    by blast
  have z: "map_of ddct (control_condition, g) = Some (Finite 0)"
    using l [rule_format, of "(control_condition, g)"] assms
    by (simp add: ddct_entry_def py_sub_same)
  have "if list_ex (\<lambda>(key, v). pow_overflows v) ddct
        then compute_fold_change ddct = Inl OverflowError
        else \<exists>fold_change. compute_fold_change ddct = Inr fold_change \<and>
               map_of fold_change (control_condition, g) = Some (Finite 1)"
  proof (cases "list_ex (\<lambda>(key, v). pow_overflows v) ddct")
    case True
    then show ?thesis by (simp add: compute_fold_change_result [OF d])
  next
    case False
    then have c: "compute_fold_change ddct = Inr (map (\<lambda>(key, v). (key, fold_value v)) ddct)"
      by (simp add: compute_fold_change_result [OF d])
    from compute_fold_change_lookup [OF d c, of "(control_condition, g)"] z
    have "map_of (map (\<lambda>(key, v). (key, fold_value v)) ddct) (control_condition, g) = Some (Finite 1)"
      by simp
    with c False show ?thesis by simp
  qed
  with r z show ?thesis by blast
qed

theorem control_self_comparison_witness:
  "map_of [((''control'', ''Bax''), Finite 5), ((''treated'', ''Bax''), Finite 3.5)] (''control'', ''Bax'') =
     Some (Finite 5) \<and>
   compute_ddct [((''control'', ''Bax''), Finite 5), ((''treated'', ''Bax''), Finite 3.5)] ''control'' =
     Inr [((''control'', ''Bax''), Finite 0), ((''treated'', ''Bax''), Finite (- 1.5))] \<and>
   compute_fold_change [((''control'', ''Bax''), Finite 0), ((''treated'', ''Bax''), Finite (- 1.5))] =
     Inr [((''control'', ''Bax''), Finite 1), ((''treated'', ''Bax''), Finite (2 powr 1.5))] \<and>
   (\<exists>ddct. compute_ddct [((''control'', ''Bax''), Finite 5), ((''treated'', ''Bax''), Finite 3.5)] ''control'' =
        Inr ddct \<and>
      map_of ddct (''control'', ''Bax'') = Some (Finite 0) \<and>
      (if list_ex (\<lambda>(key, v). pow_overflows v) ddct
       then compute_fold_change ddct = Inl OverflowError
       else \<exists>fold_change. compute_fold_change ddct = Inr fold_change \<and>
              map_of fold_change (''control'', ''Bax'') = Some (Finite 1)))"
proof -
  have h: "map_of [((''control'', ''Bax''), Finite 5), ((''treated'', ''Bax''), Finite 3.5)]
             (''control'', ''Bax'') = Some (Finite 5)"
    by simp
  have a: "compute_ddct [((''control'', ''Bax''), Finite 5), ((''treated'', ''Bax''), Finite 3.5)] ''control'' =
     Inr [((''control'', ''Bax''), Finite 0), ((''treated'', ''Bax''), Finite (- 1.5))]"
    by (simp add: compute_ddct_def genes_of_def py_sub_def py_range_small)
  have b: "compute_fold_change [((''control'', ''Bax''), Finite 0), ((''treated'', ''Bax''), Finite (- 1.5))] =
     Inr [((''control'', ''Bax''), Finite 1), ((''treated'', ''Bax''), Finite (2 powr 1.5))]"
    by (simp add: compute_fold_change_def)
  from control_self_comparison [OF h] h a b show ?thesis by blast
qed

text \<open>
  C8, as stated, does not hold. For the finite value 1075 the result is 0.0, which is not
  positive, and for the finite value -1024 \<open>compute_fold_change\<close> raises OverflowError and
  returns no map.
\<close>

theorem compute_fold_change_counterexample:
  "compute_fold_change [((''treated'', ''Bax''), Finite 1075)] = Inr [((''treated'', ''Bax''), Finite 0)] \<and>
   \<not> is_positive (Finite 0) \<and>
   compute_fold_change [((''treated'', ''Bax''), Finite (- 1024))] = Inl OverflowError"
  by (simp add: compute_fold_change_def)

text \<open>
  C8, amended. \<open>compute_fold_change\<close> raises OverflowError when some value of its input is
  finite and at most -1024. Otherwise it returns a map with the same keys in the same
  order, in which every value \<open>v\<close> is replaced by the float \<open>2 ** (-v)\<close>: 2 to the power
  \<open>-v\<close> for a finite \<open>v\<close> below 1075, and 0.0 from 1075 on. When every value is finite and
  strictly between -1024 and 1075, a map is returned and all of its values are positive.
\<close>

theorem compute_fold_change_values:
  assumes "distinct (map fst ddct_dict)"
  shows "compute_fold_change ddct_dict =
           (if list_ex (\<lambda>(key, v). pow_overflows v) ddct_dict then Inl OverflowError
            else Inr (map (\<lambda>(key, v). (key, fold_value v)) ddct_dict)) \<and>
         (list_all (\<lambda>(key, v). pow_in_range v) ddct_dict \<longrightarrow>
            (\<exists>fold_change. compute_fold_change ddct_dict = Inr fold_change \<and>
               map fst fold_change = map fst ddct_dict \<and>
               list_all (\<lambda>(key, fc). is_positive fc) fold_change)) \<and>
         (\<forall>x. x < 1075 \<longrightarrow> fold_value (Finite x) = Finite (2 powr (- x)) \<and> 0 < 2 powr (- x))"
proof -
  note r = compute_fold_change_result [OF assms]
  have "\<exists>fold_change. compute_fold_change ddct_dict = Inr fold_change \<and>
               map fst fold_change = map fst ddct_dict \<and>
               list_all (\<lambda>(key, fc). is_positive fc) fold_change"
    if a: "list_all (\<lambda>(key, v). pow_in_range v) ddct_dict"
  proof -
    from a have no: "\<not> list_ex (\<lambda>(key, v). pow_overflows v) ddct_dict"
      by (auto simp add: list_all_iff list_ex_iff dest: pow_in_range_fold_value)
    from a have pos: "list_all (\<lambda>(key, fc). is_positive fc)
        (map (\<lambda>(key, v). (key, fold_value v)) ddct_dict)"
      by (auto simp add: list_all_iff dest: pow_in_range_fold_value)
    have keys: "map fst (map (\<lambda>(key, v). (key, fold_value v)) ddct_dict) = map fst ddct_dict"
      by (induction ddct_dict) auto
    from r no pos keys show ?thesis by simp
  qed
  with r show ?thesis by simp
qed

theorem compute_fold_change_values_witness:
  "distinct (map fst [((''control'', ''Bax''), Finite 0), ((''treated'', ''Bax''), Finite (- 1.5))]) \<and>
   list_all (\<lambda>(key, v). pow_in_range v)
     [((''control'', ''Bax''), Finite 0), ((''treated'', ''Bax''), Finite (- 1.5))] \<and>
   compute_fold_change [((''control'', ''Bax''), Finite 0), ((''treated'', ''Bax''), Finite (- 1.5))] =
     Inr [((''control'', ''Bax''), Finite 1), ((''treated'', ''Bax''), Finite (2 powr 1.5))] \<and>
   (\<exists>fold_change.
      compute_fold_change [((''control'', ''Bax''), Finite 0), ((''treated'', ''Bax''), Finite (- 1.5))] =
        Inr fold_change \<and>
      map fst fold_change = [(''control'', ''Bax''), (''treated'', ''Bax'')] \<and>
      list_all (\<lambda>(key, fc). is_positive fc) fold_change)"
proof -
  have d: "distinct (map fst [((''control'', ''Bax''), Finite 0), ((''treated'', ''Bax''), Finite (- 1.5))])"
    by simp
  have a: "list_all (\<lambda>(key, v). pow_in_range v)
     [((''control'', ''Bax''), Finite 0), ((''treated'', ''Bax''), Finite (- 1.5))]"
    by simp
  from compute_fold_change_values [OF d] a d show ?thesis by simp
qed

text \<open>
  C9. The keys of the result of \<open>compute_delta_ct\<close> are the keys of the grouped map whose
  gene is not the housekeeping gene, each once.
\<close>

theorem compute_delta_ct_keys:
  "fst ` set (compute_delta_ct grouped housekeeping_gene) =
     {k \<in> fst ` set grouped. snd k \<noteq> housekeeping_gene} \<and>
   distinct (map fst (compute_delta_ct grouped housekeeping_gene))"
  by (simp add: compute_delta_ct_def delta_loop_keys delta_loop_distinct)

text \<open>
  C10. On the empty table every stage returns the empty map, for every housekeeping gene
  and control condition.
\<close>

theorem empty_input_pipeline:
  "group_ct_values [] = [] \<and>
   compute_delta_ct (group_ct_values []) hk_gene = [] \<and>
   average_delta_ct (compute_delta_ct (group_ct_values []) hk_gene) = [] \<and>
   compute_ddct (average_delta_ct (compute_delta_ct (group_ct_values []) hk_gene)) control_cond = Inr [] \<and>
   compute_fold_change [] = Inr [] \<and>
   pipeline [] hk_gene control_cond = Inr ([], [], [])"
  by (simp add: group_ct_values_def compute_delta_ct_def average_delta_ct_def compute_ddct_def
      genes_of_def compute_fold_change_def pipeline_def)

end
